theory Spec2Isabelle
  imports Main "HOL-Library.Word" "HOL-Library.Code_Target_Nat"
begin

section \<open>Byte buffers and word utilities\<close>

text \<open>
  A \<open>Uint8Array\<close> is a list of 8-bit words. Positions, offsets and lengths are JavaScript
  numbers that only ever hold non-negative integers here; they are natural numbers.
\<close>

type_synonym byte = "8 word"
type_synonym bytes = "byte list"

text \<open>
  \<open>arr.slice(b, e)\<close> for non-negative integer bounds: the elements from index \<open>b\<close> up to, not
  including, index \<open>e\<close>; both bounds are clamped to the length and the result is empty when
  \<open>b \<ge> e\<close>. \<open>arr.slice(b)\<close> is \<open>drop b arr\<close>.
\<close>

definition slice_arr :: "'a list \<Rightarrow> nat \<Rightarrow> nat \<Rightarrow> 'a list" where
  "slice_arr arr b e = drop b (take e arr)"

text \<open>\<open>BigInt(hexlify(word))\<close>: the big-endian value of a non-empty byte array.\<close>

definition bigint_of_bytes :: "bytes \<Rightarrow> nat" where
  "bigint_of_bytes word = foldl (\<lambda>acc b. acc * 256 + unat b) 0 word"

text \<open>\<open>Number.MAX_SAFE_INTEGER\<close> is \<open>2^53 - 1\<close>.\<close>

definition MAX_SAFE_INTEGER :: nat where
  "MAX_SAFE_INTEGER = 2 ^ 53 - 1"

definition isSafeNumber :: "nat \<Rightarrow> bool" where
  "isSafeNumber val = (val < MAX_SAFE_INTEGER)"

definition tryParseOffset :: "bytes \<Rightarrow> nat \<Rightarrow> nat option" where
  "tryParseOffset data pos =
     (let word = slice_arr data pos (pos + 32) in
      if length word = 0 then None
      else let bigOffset = bigint_of_bytes word in
        if \<not> isSafeNumber bigOffset then None
        else let offset = bigOffset in
          if offset \<le> pos \<or> offset \<ge> length data then None
          else if offset mod 32 \<noteq> 0 then None
          else Some offset)"

definition tryParseLength :: "bytes \<Rightarrow> nat \<Rightarrow> nat option" where
  "tryParseLength data offset =
     (let word = slice_arr data offset (offset + 32) in
      if length word = 0 then None
      else let bigLength = bigint_of_bytes word in
        if \<not> isSafeNumber bigLength then None
        else let len = bigLength in
          if offset + 32 + len > length data then None
          else Some len)"

text \<open>The two counting loops stop at the first non-zero byte from their end.\<close>

fun countLeadingZeros :: "bytes \<Rightarrow> nat" where
  "countLeadingZeros [] = 0"
| "countLeadingZeros (b # arr) = (if b \<noteq> 0 then 0 else Suc (countLeadingZeros arr))"

definition countTrailingZeros :: "bytes \<Rightarrow> nat" where
  "countTrailingZeros arr = countLeadingZeros (rev arr)"

section \<open>Type descriptors\<close>

text \<open>
  \<open>ParamType\<close> belongs to the ABI library. The program builds descriptors only with
  \<open>ParamType.from\<close> on an elementary name, on \<open>T[]\<close> and on \<open>(T1,...,Tn)\<close>, and reads them
  back with \<open>format()\<close>; a descriptor is the tree that \<open>ParamType.from\<close> parses and
  \<open>format\<close> is its canonical text. \<open>ParamType.from(`${t.format()}[]`)\<close> is \<open>ArrayT t\<close>, and
  \<open>ParamType.from(`(${formatParams(params)})`)\<close> is \<open>tuple_from params\<close> below.
\<close>

datatype ptype = Elementary string | ArrayT ptype | Tuple "ptype list"

text \<open>\<open>Array.prototype.join\<close> on strings.\<close>

fun join :: "string \<Rightarrow> string list \<Rightarrow> string" where
  "join sep [] = []"
| "join sep [x] = x"
| "join sep (x # y # ys) = x @ sep @ join sep (y # ys)"

fun format :: "ptype \<Rightarrow> string" where
  "format (Elementary name) = name"
| "format (ArrayT t) = format t @ ''[]''"
| "format (Tuple ts) = ''('' @ join '','' (map format ts) @ '')''"

definition formatParams :: "ptype list \<Rightarrow> string" where
  "formatParams params = join '','' (map format params)"

text \<open>
  \<open>ParamType.from(`(${formatParams(params)})`)\<close>: the tuple of the parameters. For no
  parameter the text is \<open>()\<close>, which the library parses as a tuple with one component whose
  type name is empty; it formats as \<open>()\<close> again.
\<close>

definition tuple_from :: "ptype list \<Rightarrow> ptype" where
  "tuple_from params = (if params = [] then Tuple [Elementary ''''] else Tuple params)"

text \<open>
  \<open>areParamsConsistent\<close>: the set of the format strings has exactly one element.
\<close>

definition areParamsConsistent :: "ptype list \<Rightarrow> bool" where
  "areParamsConsistent params = (card (set (map format params)) = 1)"

section \<open>Placeholders and the codec\<close>

text \<open>
  \<open>DynamicPlaceholder\<close> is the object \<open>{offset, length}\<close>, \<open>length\<close> being \<open>null\<close> when
  absent; \<open>DecodedParam\<close> is the union \<open>ParamType | DynamicPlaceholder\<close>, told apart by
  \<open>ParamType.isParamType\<close>.
\<close>

datatype DynamicPlaceholder = DynamicPlaceholder (offset: nat) (length_of: "nat option")

datatype DecodedParam = Param ptype | Placeholder DynamicPlaceholder

text \<open>
  The values the ABI codec hands back for the descriptors above: a hex string for
  \<open>bytes32\<close> and \<open>bytes\<close> (\<open>VHex\<close>, the bytes it spells), an array for an array or a tuple
  (\<open>VList\<close>). \<open>VChar\<close> is a one-character string, which is what indexing into a hex
  string gives.
\<close>

datatype aval = VHex bytes | VList "aval list" | VChar

text \<open>
  The ABI codec and the UTF-8 check are library code outside the program and are
  parameters of it. \<open>abi_decode c params data\<close> is \<open>defaultAbiCoder.decode(params, data)\<close>
  with every decoded value read: \<open>None\<close> when decoding or reading a value throws.
  \<open>utf8_valid c bs\<close> tells whether \<open>toUtf8String\<close> accepts the bytes.
\<close>

record codec =
  abi_decode :: "ptype list \<Rightarrow> bytes \<Rightarrow> aval list option"
  utf8_valid :: "bytes \<Rightarrow> bool"

text \<open>
  \<open>testParams\<close> (a closure over the frame's \<open>data\<close>): false on \<open>null\<close>, else whether
  decoding and stringifying every value goes through without an exception.
\<close>

definition testParams :: "codec \<Rightarrow> bytes \<Rightarrow> ptype list option \<Rightarrow> bool" where
  "testParams c data params =
     (case params of None \<Rightarrow> False | Some ps \<Rightarrow> abi_decode c ps data \<noteq> None)"

text \<open>\<open>if (testParams(fragment)) return fragment\<close>: the fragment when it passes, else go on.\<close>

definition tested :: "codec \<Rightarrow> bytes \<Rightarrow> ptype list option \<Rightarrow> ptype list option" where
  "tested c data fragment = (if testParams c data fragment then fragment else None)"

section \<open>Ranking of array candidates\<close>

text \<open>
  \<open>allResults.filter(areParamsConsistent).map(v => v[0]).sort(by format().length)\<close>. A
  consistent list is not empty, so \<open>v[0]\<close> is defined. \<open>Array.prototype.sort\<close> is stable,
  as \<open>sort_key\<close> is.
\<close>

definition validResults :: "ptype list list \<Rightarrow> ptype list" where
  "validResults allResults =
     sort_key (\<lambda>t. length (format t)) (map (\<lambda>v. v ! 0) (filter areParamsConsistent allResults))"

definition bestResult :: "ptype list list \<Rightarrow> ptype option" where
  "bestResult allResults =
     (if length (validResults allResults) = 0 then None
      else Some (ArrayT (validResults allResults ! 0)))"

text \<open>\<open>if (decoded) allResults.push(decoded)\<close>: an array, even an empty one, is truthy.\<close>

definition pushed :: "'a option \<Rightarrow> 'a list" where
  "pushed r = (case r of None \<Rightarrow> [] | Some x \<Rightarrow> [x])"

section \<open>The backtracking decoder\<close>

text \<open>
  \<open>collectedParams.find((v, i) => i > idx && !ParamType.isParamType(v))\<close>, applied to the
  parameters after index \<open>idx\<close>.
\<close>

fun find_placeholder :: "DecodedParam list \<Rightarrow> DynamicPlaceholder option" where
  "find_placeholder [] = None"
| "find_placeholder (Param t # vs) = find_placeholder vs"
| "find_placeholder (Placeholder d # vs) = Some d"

text \<open>
  The measure of a frame, for termination only: the length of the data or, if larger, one
  more than what lies behind the offset of a collected placeholder. A payload that a frame
  resolves is strictly shorter than this, and every placeholder that the static walk adds
  has a positive offset inside the data, so it leaves the measure as it is.
\<close>

fun payload_bound :: "bytes \<Rightarrow> DecodedParam list \<Rightarrow> nat" where
  "payload_bound data [] = length data"
| "payload_bound data (Param t # ps) = payload_bound data ps"
| "payload_bound data (Placeholder d # ps) =
     max (Suc (length data - offset d)) (payload_bound data ps)"

text \<open>
  \<open>decodeWellFormedTuple\<close> and its closure \<open>maybeResolveDynamicParam\<close> (which reads the
  frame's \<open>data\<close> and \<open>collectedParams\<close>). The \<open>depth\<close> argument only feeds the disabled
  \<open>debug\<close> and is left out. The result is \<open>None\<close> for \<open>null\<close> and \<open>undefined\<close>.

  The three attempts of the static region are tried in the source's order; a later one
  runs only when the earlier ones did not return. The two \<open>for\<close> loops that leave at the
  first failure are \<open>those (map \<dots>)\<close>, which is \<open>None\<close> as soon as one element is.

  \<open>numWords = dynamicData.length / 32\<close> is a fraction when the length is not a multiple of
  32: \<open>Math.floor(numWords / n)\<close> is \<open>length div (32 * n)\<close> and \<open>numWords % n !== 0\<close> is
  \<open>length mod (32 * n) \<noteq> 0\<close> (the division by 32 and the remainder are exact in double
  precision, and the rounding of the quotient cannot reach the next integer for a buffer
  of fewer than \<open>2^53\<close> bytes).

  The closure is only called with \<open>idx\<close> below the length; the first case of its
  \<open>case\<close> is never reached.
\<close>

function decodeWellFormedTuple ::
    "codec \<Rightarrow> bytes \<Rightarrow> nat \<Rightarrow> DecodedParam list \<Rightarrow> nat \<Rightarrow> nat option \<Rightarrow> bool option
      \<Rightarrow> ptype list option"
  and maybeResolveDynamicParam ::
    "codec \<Rightarrow> bytes \<Rightarrow> DecodedParam list \<Rightarrow> nat \<Rightarrow> ptype option"
where
  "decodeWellFormedTuple c data paramIdx collectedParams endOfStaticCalldata expectedLength
       isDynamicArrayElement =
     (let paramOffset = paramIdx * 32 in
      if paramOffset < endOfStaticCalldata then
        (case
           (case tryParseOffset data paramOffset of
              None \<Rightarrow> None
            | Some maybeOffset \<Rightarrow>
                (case
                   (case tryParseLength data maybeOffset of
                      None \<Rightarrow> None
                    | Some maybeLength \<Rightarrow>
                        if isDynamicArrayElement = None \<or> isDynamicArrayElement = Some True
                        then tested c data
                          (decodeWellFormedTuple c data (paramIdx + 1)
                             (collectedParams @
                                [Placeholder (DynamicPlaceholder maybeOffset (Some maybeLength))])
                             (min endOfStaticCalldata maybeOffset) expectedLength
                             isDynamicArrayElement)
                        else None)
                 of
                   Some fragment \<Rightarrow> Some fragment
                 | None \<Rightarrow>
                     if isDynamicArrayElement = None \<or> isDynamicArrayElement = Some False
                     then tested c data
                       (decodeWellFormedTuple c data (paramIdx + 1)
                          (collectedParams @ [Placeholder (DynamicPlaceholder maybeOffset None)])
                          (min endOfStaticCalldata maybeOffset) expectedLength
                          isDynamicArrayElement)
                     else None))
         of
           Some fragment \<Rightarrow> Some fragment
         | None \<Rightarrow>
             if isDynamicArrayElement \<noteq> None then None
             else tested c data
               (decodeWellFormedTuple c data (paramIdx + 1)
                  (collectedParams @ [Param (Elementary ''bytes32'')])
                  endOfStaticCalldata expectedLength isDynamicArrayElement))
      else if expectedLength \<noteq> None \<and> Some (length collectedParams) \<noteq> expectedLength then None
      else
        (case those (map (maybeResolveDynamicParam c data collectedParams)
                       [0..<length collectedParams]) of
           None \<Rightarrow> None
         | Some finalParams \<Rightarrow> tested c data (Some finalParams)))"
| "maybeResolveDynamicParam c data collectedParams idx =
     (case drop idx collectedParams of
        [] \<Rightarrow> None
      | Param param # later \<Rightarrow> Some param
      | Placeholder param # later \<Rightarrow>
          (let nextDynamicParam = find_placeholder later;
               isTrailingDynamicParam = (nextDynamicParam = None);
               maybeDynamicElementLen = length_of param;
               dynamicDataStart = offset param + (if maybeDynamicElementLen \<noteq> None then 32 else 0);
               dynamicDataEnd =
                 (case nextDynamicParam of None \<Rightarrow> length data | Some nxt \<Rightarrow> offset nxt);
               dynamicData = slice_arr data dynamicDataStart dynamicDataEnd
           in case maybeDynamicElementLen of
                None \<Rightarrow>
                  (case decodeWellFormedTuple c dynamicData 0 [] (length dynamicData) None None of
                     None \<Rightarrow> None
                   | Some params \<Rightarrow> Some (tuple_from params))
              | Some n \<Rightarrow>
                  if n = 0 then Some (ArrayT (tuple_from []))
                  else if n = length dynamicData \<or>
                    (length dynamicData mod 32 = 0 \<and>
                     n = length dynamicData - countTrailingZeros dynamicData)
                  then Some (Elementary ''bytes'')
                  else
                    (let decodedAssumingLength =
                           decodeWellFormedTuple c dynamicData 0 [] (length dynamicData)
                             (Some n) (Some True);
                         decodedAssumingNoLength =
                           decodeWellFormedTuple c dynamicData 0 [] (length dynamicData)
                             (Some n) (Some False);
                         wordsPerElement = length dynamicData div (32 * n)
                     in if length dynamicData mod (32 * n) \<noteq> 0 \<and> \<not> isTrailingDynamicParam
                        then None
                        else
                          (case those (map (\<lambda>elemIdx.
                                  case decodeWellFormedTuple c
                                         (slice_arr dynamicData (elemIdx * wordsPerElement * 32)
                                            ((elemIdx + 1) * wordsPerElement * 32))
                                         0 [] (wordsPerElement * 32) None None of
                                    None \<Rightarrow> None
                                  | Some params \<Rightarrow>
                                      if length params = 0 then None
                                      else if length params > 1 then Some (tuple_from params)
                                      else Some (params ! 0))
                                [0..<n]) of
                             None \<Rightarrow> None
                           | Some staticParseParams \<Rightarrow>
                               bestResult (pushed decodedAssumingLength @
                                 pushed decodedAssumingNoLength @ [staticParseParams])))))"
  by pat_completeness auto

section \<open>Candidate predicates\<close>

lemma slice_arr_length: "length (slice_arr arr b e) = min e (length arr) - b"
  by (simp add: slice_arr_def min.commute)

lemma tryParseOffset_SomeD:
  assumes "tryParseOffset data pos = Some off"
  shows "pos < off" and "off < length data" and "off mod 32 = 0"
  using assms by (auto simp: tryParseOffset_def Let_def split: if_splits)

lemma tryParseLength_SomeD:
  assumes "tryParseLength data off = Some len"
  shows "off + 32 + len \<le> length data"
  using assms by (auto simp: tryParseLength_def Let_def split: if_splits)

text \<open>
  Claim C3. \<open>tryParseOffset data pos\<close> returns an offset exactly when the word read at
  \<open>pos\<close> (the slice \<open>data[pos, pos + 32)\<close>) is non-empty, its big-endian value is strictly
  below \<open>2^53 - 1\<close>, lies strictly between \<open>pos\<close> and the length of the data, and is a
  multiple of 32; the offset returned is that value.
\<close>

theorem tryParseOffset_iff:
  "tryParseOffset data pos = Some off \<longleftrightarrow>
     slice_arr data pos (pos + 32) \<noteq> [] \<and>
     bigint_of_bytes (slice_arr data pos (pos + 32)) < 2 ^ 53 - 1 \<and>
     pos < bigint_of_bytes (slice_arr data pos (pos + 32)) \<and>
     bigint_of_bytes (slice_arr data pos (pos + 32)) < length data \<and>
     bigint_of_bytes (slice_arr data pos (pos + 32)) mod 32 = 0 \<and>
     off = bigint_of_bytes (slice_arr data pos (pos + 32))"
  by (auto simp: tryParseOffset_def isSafeNumber_def MAX_SAFE_INTEGER_def Let_def)

section \<open>Termination of the decoder\<close>

lemma payload_bound_ge: "length data \<le> payload_bound data ps"
  by (induction data ps rule: payload_bound.induct) auto

lemma payload_bound_append:
  "payload_bound data (ps @ qs) = max (payload_bound data ps) (payload_bound data qs)"
  using payload_bound_ge [of data qs]
  by (induction data ps rule: payload_bound.induct) (auto simp: max_def)

lemma payload_bound_snoc_Param:
  "payload_bound data (ps @ [Param t]) = payload_bound data ps"
  using payload_bound_ge [of data ps] by (simp add: payload_bound_append)

lemma payload_bound_snoc_Placeholder:
  assumes "0 < off" and "off < length data"
  shows "payload_bound data (ps @ [Placeholder (DynamicPlaceholder off l)]) = payload_bound data ps"
  using assms payload_bound_ge [of data ps] by (simp add: payload_bound_append)

lemma payload_bound_mem:
  "Placeholder d \<in> set ps \<Longrightarrow> Suc (length data - offset d) \<le> payload_bound data ps"
  by (induction data ps rule: payload_bound.induct) auto

lemma slice_arr_le: "length (slice_arr arr b e) \<le> length arr - b"
  by (simp add: slice_arr_def)

lemma drop_Cons_mem: "drop i xs = x # ys \<Longrightarrow> x \<in> set xs"
  by (metis in_set_dropD list.set_intros(1))

lemma payload_bound_tryParseOffset:
  assumes "tryParseOffset data pos = Some off"
  shows "payload_bound data (ps @ [Placeholder (DynamicPlaceholder off l)]) = payload_bound data ps"
proof -
  from assms have "0 < off" and "off < length data"
    using tryParseOffset_SomeD [OF assms] by auto
  then show ?thesis
    by (rule payload_bound_snoc_Placeholder)
qed

lemma payload_slice_less:
  assumes "drop idx ps = Placeholder d # later"
  shows "length (slice_arr data (offset d + k) e) < payload_bound data ps"
proof -
  have "Placeholder d \<in> set ps"
    using assms by (rule drop_Cons_mem)
  then have "Suc (length data - offset d) \<le> payload_bound data ps"
    by (rule payload_bound_mem)
  moreover have "length (slice_arr data (offset d + k) e) \<le> length data - offset d"
    using slice_arr_le [of data "offset d + k" e] by arith
  ultimately show ?thesis by arith
qed

lemma payload_slice_slice_less:
  assumes "drop idx ps = Placeholder d # later"
  shows "length (slice_arr (slice_arr data (offset d + k) e) b' e') < payload_bound data ps"
proof -
  have "length (slice_arr (slice_arr data (offset d + k) e) b' e')
      \<le> length (slice_arr data (offset d + k) e)"
    using slice_arr_le [of "slice_arr data (offset d + k) e" b' e'] by arith
  with payload_slice_less [OF assms, of data k e] show ?thesis by arith
qed

text \<open>
  The decoder is total: a call in the static region keeps the measure and moves
  \<open>paramIdx * 32\<close> towards \<open>endOfStaticCalldata\<close>; a call on a payload lowers the measure.
\<close>

termination decodeWellFormedTuple
proof (relation "measures
     [case_sum (\<lambda>(c, data, idx, ps, eos, el, isd). payload_bound data ps)
               (\<lambda>(c, data, ps, idx). payload_bound data ps),
      case_sum (\<lambda>_. 1) (\<lambda>_. 0),
      case_sum (\<lambda>(c, data, idx, ps, eos, el, isd). eos - idx * 32) (\<lambda>_. 0)]",
    goal_cases)
  case 1
  then show ?case by simp
next
  case (2 c "data" paramIdx collectedParams eos el isd x x2 x2a)
  then show ?case
    by (auto simp: payload_bound_tryParseOffset)
next
  case (3 c "data" paramIdx collectedParams eos el isd x x2)
  then show ?case
    by (auto simp: payload_bound_tryParseOffset)
next
  case (4 c "data" paramIdx collectedParams eos el isd x)
  then show ?case
    by (auto simp: payload_bound_snoc_Param)
next
  case 5
  then show ?case by simp
next
  case (6 c "data" collectedParams idx x21 x22 x2)
  then show ?case
    using payload_slice_less [of idx collectedParams x2 x22 "data" 0] by simp
next
  case (7 c "data" collectedParams idx x21 x22 x2)
  then show ?case
    using payload_slice_less [of idx collectedParams x2 x22 "data" 32]
      payload_slice_less [of idx collectedParams x2 x22 "data" 0] by auto
next
  case (8 c "data" collectedParams idx x21 x22 x2)
  then show ?case
    using payload_slice_less [of idx collectedParams x2 x22 "data" 32]
      payload_slice_less [of idx collectedParams x2 x22 "data" 0] by auto
next
  case (9 c "data" collectedParams idx x21 x22 x2)
  then show ?case
    using payload_slice_slice_less [of idx collectedParams x2 x22 "data" 32]
      payload_slice_slice_less [of idx collectedParams x2 x22 "data" 0] by auto
qed

declare decodeWellFormedTuple.simps [simp del] maybeResolveDynamicParam.simps [simp del]

section \<open>Length consistency\<close>

lemma tested_SomeD:
  "tested c data r = Some T \<Longrightarrow> r = Some T \<and> abi_decode c T data \<noteq> None"
  by (auto simp: tested_def testParams_def split: if_splits option.splits)

lemma those_length: "those xs = Some ys \<Longrightarrow> length ys = length xs"
  by (induction xs arbitrary: ys) (auto split: option.splits)

lemma expected_length_aux:
  "\<forall>k T. expectedLength = Some k \<longrightarrow>
      decodeWellFormedTuple c data paramIdx collectedParams eos expectedLength isd = Some T \<longrightarrow>
      length T = k"
proof (rule decodeWellFormedTuple_maybeResolveDynamicParam.induct(1)
    [where Q = "\<lambda>_ _ _ _. True"
       and P = "\<lambda>c data paramIdx collectedParams eos expectedLength isd.
         \<forall>k T. expectedLength = Some k \<longrightarrow>
           decodeWellFormedTuple c data paramIdx collectedParams eos expectedLength isd = Some T \<longrightarrow>
           length T = k"], goal_cases)
  case (1 c "data" paramIdx collectedParams endOfStaticCalldata expectedLength isDynamicArrayElement)
  show ?case
  proof (intro allI impI)
    fix k T
    assume el: "expectedLength = Some k"
      and res: "decodeWellFormedTuple c data paramIdx collectedParams endOfStaticCalldata
                  expectedLength isDynamicArrayElement = Some T"
    show "length T = k"
    proof (cases "paramIdx * 32 < endOfStaticCalldata")
      case True
      from res True el "1"(1,2,3) show ?thesis
        apply (subst (asm) decodeWellFormedTuple.simps)
        apply (simp add: Let_def split: option.splits if_splits)
        apply (auto dest!: tested_SomeD)
        done
    next
      case False
      from res False el show ?thesis
        apply (subst (asm) decodeWellFormedTuple.simps)
        apply (auto simp: Let_def split: option.splits if_splits dest!: tested_SomeD those_length)
        done
    qed
  qed
next
  case (2 c "data" collectedParams idx)
  show ?case by simp
qed

text \<open>
  Claim C7. A frame of the decoder on which \<open>expectedLength = k\<close> is imposed returns
  \<open>null\<close> or a list of exactly \<open>k\<close> types.
\<close>

theorem expected_length_consistency:
  "decodeWellFormedTuple c data paramIdx collectedParams endOfStaticCalldata (Some k)
       isDynamicArrayElement = None
   \<or> (\<exists>T. decodeWellFormedTuple c data paramIdx collectedParams endOfStaticCalldata (Some k)
             isDynamicArrayElement = Some T \<and> length T = k)"
  using expected_length_aux [of "Some k" c data paramIdx collectedParams endOfStaticCalldata
      isDynamicArrayElement]
  by (cases "decodeWellFormedTuple c data paramIdx collectedParams endOfStaticCalldata (Some k)
       isDynamicArrayElement") auto

section \<open>Resolution of a dynamic placeholder\<close>

text \<open>
  Names for the locals of \<open>maybeResolveDynamicParam\<close>, for a placeholder \<open>param\<close> followed by
  the parameters \<open>later\<close>: the payload \<open>dynamicData\<close>, the test that makes it a byte string,
  the list \<open>staticParseParams\<close> built by the loop over the elements (\<open>None\<close> when the loop
  leaves with \<open>undefined\<close>) and the list \<open>allResults\<close> of the candidates, in the order in
  which they are pushed. \<open>maybeResolve_placeholder\<close> restates the closure with them.
\<close>

definition dynamicData :: "bytes \<Rightarrow> DynamicPlaceholder \<Rightarrow> DecodedParam list \<Rightarrow> bytes" where
  "dynamicData data param later =
     slice_arr data (offset param + (if length_of param \<noteq> None then 32 else 0))
       (case find_placeholder later of None \<Rightarrow> length data | Some nxt \<Rightarrow> offset nxt)"

definition staticParseParams :: "codec \<Rightarrow> bytes \<Rightarrow> nat \<Rightarrow> ptype list option" where
  "staticParseParams c dd n =
     (let wordsPerElement = length dd div (32 * n) in
      those (map (\<lambda>elemIdx.
          case decodeWellFormedTuple c
                 (slice_arr dd (elemIdx * wordsPerElement * 32) ((elemIdx + 1) * wordsPerElement * 32))
                 0 [] (wordsPerElement * 32) None None of
            None \<Rightarrow> None
          | Some params \<Rightarrow>
              if length params = 0 then None
              else if length params > 1 then Some (tuple_from params)
              else Some (params ! 0))
        [0..<n]))"

definition allResults :: "codec \<Rightarrow> bytes \<Rightarrow> nat \<Rightarrow> ptype list \<Rightarrow> ptype list list" where
  "allResults c dd n staticParse =
     pushed (decodeWellFormedTuple c dd 0 [] (length dd) (Some n) (Some True)) @
     pushed (decodeWellFormedTuple c dd 0 [] (length dd) (Some n) (Some False)) @
     [staticParse]"

definition is_bytestring :: "nat \<Rightarrow> bytes \<Rightarrow> bool" where
  "is_bytestring n dd \<longleftrightarrow>
     n = length dd \<or> (length dd mod 32 = 0 \<and> n = length dd - countTrailingZeros dd)"

lemma maybeResolve_placeholder:
  assumes "drop idx collectedParams = Placeholder param # later"
  shows "maybeResolveDynamicParam c data collectedParams idx =
     (case length_of param of
        None \<Rightarrow>
          (case decodeWellFormedTuple c (dynamicData data param later) 0 []
                  (length (dynamicData data param later)) None None of
             None \<Rightarrow> None
           | Some params \<Rightarrow> Some (tuple_from params))
      | Some n \<Rightarrow>
          if n = 0 then Some (ArrayT (tuple_from []))
          else if is_bytestring n (dynamicData data param later) then Some (Elementary ''bytes'')
          else if length (dynamicData data param later) mod (32 * n) \<noteq> 0 \<and>
                  find_placeholder later \<noteq> None then None
          else (case staticParseParams c (dynamicData data param later) n of
                  None \<Rightarrow> None
                | Some sp \<Rightarrow> bestResult (allResults c (dynamicData data param later) n sp)))"
proof (cases "length_of param")
  case None
  with assms show ?thesis
    apply (subst maybeResolveDynamicParam.simps)
    apply (simp only: list.case DecodedParam.case option.case Let_def dynamicData_def)
    done
next
  case (Some n)
  with assms show ?thesis
    apply (subst maybeResolveDynamicParam.simps)
    apply (simp only: list.case DecodedParam.case option.case Let_def dynamicData_def
       staticParseParams_def allResults_def is_bytestring_def)
    done
qed

lemma bestResult_not_bytes: "bestResult rs \<noteq> Some (Elementary s)"
  by (simp add: bestResult_def)

text \<open>
  Claim C4. A placeholder with a non-zero declared length \<open>n\<close> resolves to \<open>bytes\<close> exactly
  when \<open>n\<close> is the length of the payload, or the length of the payload is a multiple of 32
  and \<open>n\<close> is that length minus the number of trailing zero bytes of the payload.
\<close>

theorem bytes_classification:
  assumes "drop idx collectedParams = Placeholder param # later"
    and "length_of param = Some n" and "n \<noteq> 0"
  shows "maybeResolveDynamicParam c data collectedParams idx = Some (Elementary ''bytes'') \<longleftrightarrow>
     (n = length (dynamicData data param later) \<or>
      (length (dynamicData data param later) mod 32 = 0 \<and>
       n = length (dynamicData data param later) -
           countTrailingZeros (dynamicData data param later)))"
proof (cases "is_bytestring n (dynamicData data param later)")
  case True
  then show ?thesis
    using assms(2,3) by (simp add: maybeResolve_placeholder [OF assms(1)] is_bytestring_def)
next
  case False
  have "maybeResolveDynamicParam c data collectedParams idx \<noteq> Some (Elementary ''bytes'')"
    using assms(2,3) False
    by (simp add: maybeResolve_placeholder [OF assms(1)] bestResult_not_bytes
        split: option.splits)
  with False show ?thesis
    by (simp add: is_bytestring_def)
qed


lemma sort_key_first:
  assumes "S \<noteq> []"
  shows "\<exists>pre r post. S = pre @ r # post \<and> sort_key f (map g S) ! 0 = g r \<and>
           (\<forall>q\<in>set pre. f (g r) < f (g q)) \<and> (\<forall>q\<in>set post. f (g r) \<le> f (g q))"
  using assms
proof (induction S)
  case Nil
  then show ?case by simp
next
  case (Cons a S)
  show ?case
  proof (cases "S = []")
    case True
    then have "a # S = [] @ a # [] \<and> sort_key f (map g (a # S)) ! 0 = g a"
      by simp
    then show ?thesis by fastforce
  next
    case False
    from Cons.IH [OF False] obtain pre r post where
      S: "S = pre @ r # post" and hd: "sort_key f (map g S) ! 0 = g r"
      and pre: "\<forall>q\<in>set pre. f (g r) < f (g q)" and post: "\<forall>q\<in>set post. f (g r) \<le> f (g q)"
      by blast
    from False have "sort_key f (map g S) \<noteq> []"
      by (metis length_0_conv length_map length_sort)
    then obtain y ys where ys: "sort_key f (map g S) = y # ys"
      by (cases "sort_key f (map g S)") auto
    with hd have y: "y = g r" by simp
    show ?thesis
    proof (cases "f (g a) \<le> f (g r)")
      case True
      then have "sort_key f (map g (a # S)) ! 0 = g a"
        using ys y by simp
      moreover have "\<forall>q\<in>set S. f (g a) \<le> f (g q)"
        using True S pre post by force
      ultimately have "a # S = [] @ a # S \<and> sort_key f (map g (a # S)) ! 0 = g a \<and>
          (\<forall>q\<in>set []. f (g a) < f (g q)) \<and> (\<forall>q\<in>set S. f (g a) \<le> f (g q))"
        by simp
      then show ?thesis by blast
    next
      case False
      then have "sort_key f (map g (a # S)) ! 0 = g r"
        using ys y by simp
      moreover have "\<forall>q\<in>set (a # pre). f (g r) < f (g q)"
        using False pre by auto
      moreover have "a # S = (a # pre) @ r # post"
        using S by simp
      ultimately show ?thesis
        using post by blast
    qed
  qed
qed

lemma areParamsConsistent_iff:
  "areParamsConsistent params \<longleftrightarrow>
     params \<noteq> [] \<and> (\<forall>p\<in>set params. format p = format (params ! 0))"
proof (cases params)
  case Nil
  then show ?thesis by (simp add: areParamsConsistent_def)
next
  case (Cons p ps)
  have "card (insert (format p) (format ` set ps)) = 1 \<longleftrightarrow> (\<forall>q\<in>set ps. format q = format p)"
  proof
    assume "card (insert (format p) (format ` set ps)) = 1"
    then obtain x where "insert (format p) (format ` set ps) = {x}"
      by (auto simp: card_1_singleton_iff)
    then show "\<forall>q\<in>set ps. format q = format p"
      by (metis image_eqI insertCI singletonD)
  next
    assume "\<forall>q\<in>set ps. format q = format p"
    then have "insert (format p) (format ` set ps) = {format p}"
      by auto
    then have "card (insert (format p) (format ` set ps)) = card {format p}"
      by (rule arg_cong)
    then show "card (insert (format p) (format ` set ps)) = 1"
      by simp
  qed
  with Cons show ?thesis
    by (simp add: areParamsConsistent_def)
qed

text \<open>
  Claim C5. When a placeholder with a non-zero declared length resolves to \<open>T[]\<close>, the loop
  over the elements has produced its list, the candidates whose element types do not all
  format alike are filtered out, and among the remaining ones (in the order in which they
  were pushed: with length, without length, static) \<open>T\<close> is the first element of a candidate
  \<open>r\<close> all of whose elements format as \<open>T\<close> does, every candidate before \<open>r\<close> has a strictly
  longer format string and every candidate after \<open>r\<close> one at least as long.
\<close>

theorem array_ranking:
  assumes "drop idx collectedParams = Placeholder param # later"
    and "length_of param = Some n" and "n \<noteq> 0"
    and "maybeResolveDynamicParam c data collectedParams idx = Some (ArrayT T)"
  shows "\<exists>staticParse pre r post.
      staticParseParams c (dynamicData data param later) n = Some staticParse \<and>
      filter areParamsConsistent (allResults c (dynamicData data param later) n staticParse)
        = pre @ r # post \<and>
      T = r ! 0 \<and>
      (\<forall>p\<in>set r. format p = format T) \<and>
      (\<forall>q\<in>set pre. length (format T) < length (format (q ! 0))) \<and>
      (\<forall>q\<in>set post. length (format T) \<le> length (format (q ! 0)))"
proof -
  let ?dd = "dynamicData data param later"
  have eq: "maybeResolveDynamicParam c data collectedParams idx =
       (if is_bytestring n ?dd then Some (Elementary ''bytes'')
        else if length ?dd mod (32 * n) \<noteq> 0 \<and> find_placeholder later \<noteq> None then None
        else (case staticParseParams c ?dd n of
                None \<Rightarrow> None
              | Some sp \<Rightarrow> bestResult (allResults c ?dd n sp)))"
    unfolding maybeResolve_placeholder [OF assms(1)] assms(2) option.case
    using assms(3) by (simp only: if_False)
  have "(case staticParseParams c ?dd n of
                None \<Rightarrow> None
              | Some sp \<Rightarrow> bestResult (allResults c ?dd n sp)) = Some (ArrayT T)"
    using assms(4) unfolding eq by (simp only: split: if_splits) simp_all
  then obtain sp where sp: "staticParseParams c ?dd n = Some sp"
    and best: "bestResult (allResults c ?dd n sp) = Some (ArrayT T)"
    by (cases "staticParseParams c ?dd n") simp_all
  let ?S = "filter areParamsConsistent (allResults c ?dd n sp)"
  have vr: "validResults (allResults c ?dd n sp) \<noteq> []"
    and T: "T = validResults (allResults c ?dd n sp) ! 0"
    using best unfolding bestResult_def by (simp_all only: length_0_conv split: if_splits) simp_all
  have ne: "?S \<noteq> []"
    using vr unfolding validResults_def by (metis length_0_conv length_map length_sort)
  from sort_key_first [OF ne, of "\<lambda>t. length (format t)" "\<lambda>v. v ! 0"]
  obtain pre r post where S: "?S = pre @ r # post"
    and hd: "sort_key (\<lambda>t. length (format t)) (map (\<lambda>v. v ! 0) ?S) ! 0 = r ! 0"
    and pre: "\<forall>q\<in>set pre. length (format (r ! 0)) < length (format (q ! 0))"
    and post: "\<forall>q\<in>set post. length (format (r ! 0)) \<le> length (format (q ! 0))"
    by blast
  have Tr: "T = r ! 0"
    using T hd unfolding validResults_def by (rule trans)
  have "r \<in> set ?S"
    unfolding S by simp
  then have "areParamsConsistent r"
    by (simp only: set_filter mem_Collect_eq)
  then have same: "\<forall>p\<in>set r. format p = format T"
    unfolding Tr areParamsConsistent_iff by (rule conjunct2)
  show ?thesis
    using sp S Tr same pre post
    by (intro exI [of _ sp] exI [of _ pre] exI [of _ r] exI [of _ post]) (simp only: simp_thms)
qed

section \<open>Post-refinement\<close>

text \<open>
  \<open>guessAbiEncodedData\<close> and \<open>guessFragment\<close> can leave with an exception: a \<open>TypeError\<close> of
  JavaScript (a property read on \<open>null\<close> or \<open>undefined\<close>, a call of something that is not a
  function), the library's invalid-argument error (\<open>arrayify\<close> on something that is not
  bytes), or an error of the codec. A result is \<open>Inl\<close> of the error or \<open>Inr\<close> of the value.
\<close>

datatype js_error = TypeError | InvalidArgument | DecodeError

text \<open>
  \<open>Array.prototype.map\<close> with a callback that may throw: the callbacks run from left to
  right and the first exception leaves the loop.
\<close>

fun sequence :: "('e + 'a) list \<Rightarrow> 'e + 'a list" where
  "sequence [] = Inr []"
| "sequence (Inl e # xs) = Inl e"
| "sequence (Inr x # xs) = (case sequence xs of Inl e \<Rightarrow> Inl e | Inr ys \<Rightarrow> Inr (x # ys))"

text \<open>
  The fields of a \<open>ParamType\<close> that the refinement reads: \<open>baseType\<close> (\<open>array\<close>, \<open>tuple\<close> or
  the name itself), \<open>type\<close> (the name, \<open>T[]\<close> with the type of the element, or \<open>tuple\<close>),
  \<open>arrayChildren\<close> (\<open>null\<close>, here \<open>None\<close>, on what is not an array) and \<open>components\<close> (those of
  a tuple; an array carries the components of its element; \<open>null\<close> otherwise).
\<close>

fun baseType :: "ptype \<Rightarrow> string" where
  "baseType (Elementary name) = name"
| "baseType (ArrayT t) = ''array''"
| "baseType (Tuple ts) = ''tuple''"

fun type_of :: "ptype \<Rightarrow> string" where
  "type_of (Elementary name) = name"
| "type_of (ArrayT t) = type_of t @ ''[]''"
| "type_of (Tuple ts) = ''tuple''"

fun arrayChildren :: "ptype \<Rightarrow> ptype option" where
  "arrayChildren (ArrayT t) = Some t"
| "arrayChildren (Elementary name) = None"
| "arrayChildren (Tuple ts) = None"

fun components :: "ptype \<Rightarrow> ptype list option" where
  "components (Tuple ts) = Some ts"
| "components (Elementary name) = None"
| "components (ArrayT t) = components t"

text \<open>\<open>xs[i]\<close> on an array: \<open>undefined\<close> (here \<open>None\<close>) past the end.\<close>

definition nth_opt :: "'a list \<Rightarrow> nat \<Rightarrow> 'a option" where
  "nth_opt xs i = (if i < length xs then Some (xs ! i) else None)"

text \<open>
  \<open>types.find((v) => v.baseType === b) !== undefined\<close> on a list whose elements may be
  \<open>null\<close> or \<open>undefined\<close> (\<open>None\<close>): reading \<open>baseType\<close> of such an element throws.
\<close>

fun find_baseType :: "string \<Rightarrow> ptype option list \<Rightarrow> js_error + bool" where
  "find_baseType b [] = Inr False"
| "find_baseType b (None # vs) = Inl TypeError"
| "find_baseType b (Some v # vs) = (if baseType v = b then Inr True else find_baseType b vs)"

text \<open>The measure of \<open>mergeTypes\<close>, for termination only.\<close>

definition merge_weight :: "ptype option \<Rightarrow> nat" where
  "merge_weight v = (case v of None \<Rightarrow> 0 | Some t \<Rightarrow> Suc (size t))"

definition merge_size :: "ptype option list \<Rightarrow> nat" where
  "merge_size types = sum_list (map merge_weight types)"

text \<open>
  \<open>mergeTypes\<close>. The recursion passes \<open>types[v].components[i]\<close> and \<open>v.arrayChildren\<close> on,
  which are \<open>undefined\<close> or \<open>null\<close> for a shorter tuple or for a type that is not an array:
  the list holds optional descriptors. In the tuple branch, each round of the loop reads
  \<open>components[i]\<close> of every type and throws when a type, or its \<open>components\<close>, is \<open>null\<close>. In
  the branches after the first \<open>find\<close> every element is a descriptor, since the \<open>find\<close> has read
  \<open>baseType\<close> of each.
\<close>

function mergeTypes :: "ptype option list \<Rightarrow> js_error + ptype" where
  "mergeTypes types =
     (if length types = 0 then Inr (tuple_from [])
      else
        (case find_baseType ''tuple'' types of
           Inl e \<Rightarrow> Inl e
         | Inr True \<Rightarrow>
             (case types ! 0 of
                None \<Rightarrow> Inl TypeError
              | Some t0 \<Rightarrow>
                  (case components t0 of
                     None \<Rightarrow> Inl TypeError
                   | Some comps0 \<Rightarrow>
                       (case sequence (map (\<lambda>i.
                               case those (map (\<lambda>v. case v of
                                                  None \<Rightarrow> None
                                                | Some t \<Rightarrow>
                                                    (case components t of
                                                       None \<Rightarrow> None
                                                     | Some cs \<Rightarrow> Some (nth_opt cs i)))
                                            types) of
                                 None \<Rightarrow> Inl TypeError
                               | Some ith \<Rightarrow> mergeTypes ith)
                             [0..<length comps0]) of
                          Inl e \<Rightarrow> Inl e
                        | Inr componentTypes \<Rightarrow> Inr (tuple_from componentTypes))))
         | Inr False \<Rightarrow>
             (case those types of
                None \<Rightarrow> Inl TypeError
              | Some ts \<Rightarrow>
                  if \<exists>v\<in>set ts. baseType v = ''array'' then
                    (case mergeTypes (map arrayChildren ts) of
                       Inl e \<Rightarrow> Inl e
                     | Inr merged \<Rightarrow> Inr (ArrayT merged))
                  else
                    (let formats = set (map format ts) in
                     if card formats = 1 then Inr (ts ! 0)
                     else if ''bytes'' \<in> formats then Inr (Elementary ''bytes'')
                     else if ''uint256'' \<in> formats then Inr (Elementary ''uint256'')
                     else Inr (Elementary ''bytes32'')))))"
  by pat_completeness auto

subsection \<open>Termination of \<open>mergeTypes\<close>\<close>

lemma those_map_weight:
  assumes "those (map f xs) = Some ys"
    and "\<And>x y. x \<in> set xs \<Longrightarrow> f x = Some y \<Longrightarrow> w' y < w x"
  shows "sum_list (map w' ys) + length xs \<le> sum_list (map (w :: 'a \<Rightarrow> nat) xs)"
  using assms
proof (induction xs arbitrary: ys)
  case Nil
  then show ?case by simp
next
  case (Cons x xs)
  from Cons.prems(1) obtain y ys' where fx: "f x = Some y"
    and rest: "those (map f xs) = Some ys'" and ys: "ys = y # ys'"
    by (auto split: option.splits)
  have "w' y < w x"
    using Cons.prems(2) [of x y] fx by simp
  moreover have "sum_list (map w' ys') + length xs \<le> sum_list (map w xs)"
    using Cons.IH [OF rest] Cons.prems(2) by simp
  ultimately show ?case
    using ys by simp
qed

lemma size_nth_less: "i < length cs \<Longrightarrow> size (cs ! i) < Suc (size_list size cs)"
proof (induction cs arbitrary: i)
  case Nil
  then show ?case by simp
next
  case (Cons a cs)
  show ?case
  proof (cases i)
    case 0
    then show ?thesis by simp
  next
    case (Suc j)
    with Cons.prems have "j < length cs" by simp
    from Cons.IH [OF this] show ?thesis
      using Suc by simp
  qed
qed

lemma components_size_le: "components t = Some cs \<Longrightarrow> Suc (size_list size cs) \<le> size t"
  by (induction t) auto

lemma weight_component:
  assumes "components t = Some cs"
  shows "merge_weight (nth_opt cs i) < merge_weight (Some t)"
proof (cases "i < length cs")
  case True
  with size_nth_less [of i cs] components_size_le [OF assms]
  have "size (cs ! i) < size t" by arith
  with True show ?thesis
    by (simp add: merge_weight_def nth_opt_def)
next
  case False
  then show ?thesis
    by (simp add: merge_weight_def nth_opt_def)
qed

lemma weight_arrayChildren: "merge_weight (arrayChildren t) < merge_weight (Some t)"
  by (cases t) (simp_all add: merge_weight_def)

lemma merge_size_weight: "merge_size types = sum_list (map merge_weight types)"
  by (simp add: merge_size_def)

lemma merge_size_components:
  assumes "types \<noteq> []"
    and "those (map (case_option None
                 (\<lambda>t. case components t of None \<Rightarrow> None | Some cs \<Rightarrow> Some (nth_opt cs i)))
            types) = Some ith"
  shows "merge_size ith < merge_size types"
proof -
  have "sum_list (map merge_weight ith) + length types \<le> sum_list (map merge_weight types)"
  proof (rule those_map_weight [OF assms(2)])
    fix x y
    assume "(case x of None \<Rightarrow> None
            | Some t \<Rightarrow> (case components t of None \<Rightarrow> None | Some cs \<Rightarrow> Some (nth_opt cs i)))
           = Some y"
    then show "merge_weight y < merge_weight x"
      by (auto split: option.splits simp: weight_component)
  qed
  moreover have "0 < length types"
    using assms(1) by simp
  ultimately show ?thesis
    unfolding merge_size_weight by arith
qed

lemma those_Some_map: "those xs = Some ys \<Longrightarrow> xs = map Some ys"
  by (induction xs arbitrary: ys) (auto split: option.splits)

lemma merge_size_arrayChildren:
  assumes "types \<noteq> []" and "those types = Some ts"
  shows "merge_size (map arrayChildren ts) < merge_size types"
proof -
  have types: "types = map Some ts"
    using assms(2) by (rule those_Some_map)
  have "sum_list (map merge_weight (map arrayChildren ts)) + length ts
      \<le> sum_list (map merge_weight (map Some ts))"
  proof (induction ts)
    case Nil
    then show ?case by simp
  next
    case (Cons t ts)
    then show ?case
      using weight_arrayChildren [of t] by simp
  qed
  moreover have "0 < length ts"
    using assms(1) types by simp
  ultimately show ?thesis
    unfolding merge_size_weight types by arith
qed

termination mergeTypes
proof (relation "measure merge_size", goal_cases)
  case 1
  then show ?case by simp
next
  case (2 types b x2 x2a x x2b)
  then show ?case
    using merge_size_components [of types x x2b] by simp
next
  case (3 types b x2)
  then show ?case
    using merge_size_arrayChildren [of types x2] by simp
qed

declare mergeTypes.simps [simp del]

text \<open>
  The decimal text of a number, for the template literal \<open>`bytes${32 - trailingZeros}`\<close>.
\<close>

fun string_of_nat :: "nat \<Rightarrow> string" where
  "string_of_nat n =
     (if n < 10 then [char_of (48 + n)]
      else string_of_nat (n div 10) @ [char_of (48 + n mod 10)])"

declare string_of_nat.simps [simp del]

definition string_of_int :: "int \<Rightarrow> string" where
  "string_of_int i = (if i < 0 then ''-'' @ string_of_nat (nat (- i)) else string_of_nat (nat i))"

text \<open>
  \<open>vals[idx]\<close>, where \<open>vals\<close> may be \<open>undefined\<close> (\<open>None\<close>, the read throws), an array, a hex
  string of \<open>2 + 2 * n\<close> characters, or a single character.
\<close>

fun js_index :: "aval option \<Rightarrow> nat \<Rightarrow> js_error + aval option" where
  "js_index None idx = Inl TypeError"
| "js_index (Some (VList vs)) idx = Inr (if idx < length vs then Some (vs ! idx) else None)"
| "js_index (Some (VHex bs)) idx = Inr (if idx < 2 + 2 * length bs then Some VChar else None)"
| "js_index (Some VChar) idx = Inr (if idx = 0 then Some VChar else None)"

text \<open>
  \<open>arrayify(val)\<close> on a decoded value: the bytes of a hex string, the empty byte array for
  an empty array, a \<open>TypeError\<close> on \<open>undefined\<close> (the library reads a property of the value
  first), the library's invalid-argument error otherwise.
\<close>

fun arrayify_val :: "aval option \<Rightarrow> js_error + bytes" where
  "arrayify_val (Some (VHex bs)) = Inr bs"
| "arrayify_val (Some (VList [])) = Inr []"
| "arrayify_val (Some (VList (v # vs))) = Inl InvalidArgument"
| "arrayify_val (Some VChar) = Inl InvalidArgument"
| "arrayify_val None = Inl TypeError"

text \<open>
  \<open>prettyTypes\<close>, the callback of its \<open>map\<close> written in place. \<open>toUtf8String(val)\<close> makes
  bytes of \<open>val\<close> with \<open>arrayify\<close> and then checks them; both failures are caught by the
  \<open>try\<close>. \<open>val.map\<close> exists only on an array. In the array branch the callback of
  \<open>val.map\<close> reads \<open>param.arrayChildren\<close>, which is \<open>null\<close> only for a type named \<open>array\<close>
  that is not an array; the nested call then throws on \<open>param.type\<close>.
\<close>

function prettyTypes :: "codec \<Rightarrow> ptype list \<Rightarrow> aval option \<Rightarrow> js_error + ptype list" where
  "prettyTypes c params vals =
     sequence (map (\<lambda>idx.
         let param = params ! idx in
         case js_index vals idx of
           Inl e \<Rightarrow> Inl e
         | Inr val \<Rightarrow>
             if type_of param = ''bytes32'' then
               (case arrayify_val val of
                  Inl e \<Rightarrow> Inl e
                | Inr word \<Rightarrow>
                    (let leadingZeros = countLeadingZeros word;
                         trailingZeros = countTrailingZeros word
                     in if leadingZeros \<ge> 12 \<and> leadingZeros \<le> 17 then Inr (Elementary ''address'')
                        else if leadingZeros > 16 then Inr (Elementary ''uint256'')
                        else if trailingZeros > 0
                        then Inr (Elementary (''bytes'' @ string_of_int (32 - int trailingZeros)))
                        else Inr (Elementary ''bytes32'')))
             else if type_of param = ''bytes'' then
               (case arrayify_val val of
                  Inl e \<Rightarrow> Inr (Elementary ''bytes'')
                | Inr bs \<Rightarrow>
                    if utf8_valid c bs then Inr (Elementary ''string'')
                    else Inr (Elementary ''bytes''))
             else if baseType param = ''array'' then
               (case val of
                  Some (VList children) \<Rightarrow>
                    (case sequence (map (\<lambda>child.
                            case arrayChildren param of
                              None \<Rightarrow> Inl TypeError
                            | Some t \<Rightarrow>
                                (case prettyTypes c [t] (Some (VList [child])) of
                                   Inl e \<Rightarrow> Inl e
                                 | Inr ts \<Rightarrow> Inr (Some (ts ! 0))))
                          children) of
                       Inl e \<Rightarrow> Inl e
                     | Inr childrenTypes \<Rightarrow>
                         (case mergeTypes childrenTypes of
                            Inl e \<Rightarrow> Inl e
                          | Inr merged \<Rightarrow> Inr (ArrayT merged)))
                | _ \<Rightarrow> Inl TypeError)
             else if baseType param = ''tuple'' then
               (case components param of
                  None \<Rightarrow> Inl TypeError
                | Some comps \<Rightarrow>
                    (case prettyTypes c comps val of
                       Inl e \<Rightarrow> Inl e
                     | Inr ts \<Rightarrow> Inr (tuple_from ts)))
             else Inr param)
       [0..<length params])"
  by pat_completeness auto

subsection \<open>Termination of \<open>prettyTypes\<close>\<close>

lemma size_nth_lt: "i < length ps \<Longrightarrow> size (ps ! i) < size_list size ps"
proof (induction ps arbitrary: i)
  case Nil
  then show ?case by simp
next
  case (Cons a ps)
  show ?case
  proof (cases i)
    case 0
    then show ?thesis by simp
  next
    case (Suc j)
    with Cons.prems have "j < length ps" by simp
    from Cons.IH [OF this] show ?thesis
      using Suc by simp
  qed
qed

lemma arrayChildren_size:
  assumes "i < length ps" and "arrayChildren (ps ! i) = Some t"
  shows "Suc (size t) < size_list size ps"
proof -
  from assms(2) have "ps ! i = ArrayT t"
    by (cases "ps ! i") auto
  with size_nth_lt [OF assms(1)] show ?thesis by simp
qed

lemma components_size:
  assumes "i < length ps" and "components (ps ! i) = Some cs"
  shows "size_list size cs < size_list size ps"
  using size_nth_lt [OF assms(1)] components_size_le [OF assms(2)] by simp

termination prettyTypes
proof (relation "measure (\<lambda>(c, params, vals). size_list size params)", goal_cases)
  case 1
  then show ?case by simp
next
  case (2 c params vals x xa b x2 x2a xb x2b)
  then show ?case
    using arrayChildren_size [of x params x2b] by simp
next
  case (3 c params vals x xa b x2)
  then show ?case
    using components_size [of x params x2] by simp
qed

declare prettyTypes.simps [simp del]

section \<open>Entry points\<close>

text \<open>
  \<open>BytesLike\<close> is an array of bytes or a hex string. \<open>bytes.length\<close> counts the bytes of an
  array and the characters of a string. \<open>arrayify\<close> (library code) gives the bytes of an
  array as they are and parses a string that is \<open>0x\<close> followed by an even number of hex
  digits; on any other string it throws the invalid-argument error.
\<close>

datatype bytes_like = ByteArray bytes | HexString string

fun js_length :: "bytes_like \<Rightarrow> nat" where
  "js_length (ByteArray bs) = length bs"
| "js_length (HexString s) = length s"

definition hex_value :: "char \<Rightarrow> nat option" where
  "hex_value ch =
     (let k = of_char ch :: nat in
      if 48 \<le> k \<and> k \<le> 57 then Some (k - 48)
      else if 97 \<le> k \<and> k \<le> 102 then Some (k - 87)
      else if 65 \<le> k \<and> k \<le> 70 then Some (k - 55)
      else None)"

fun bytes_of_hex :: "string \<Rightarrow> bytes option" where
  "bytes_of_hex [] = Some []"
| "bytes_of_hex [h] = None"
| "bytes_of_hex (h # l # rest) =
     (case (hex_value h, hex_value l, bytes_of_hex rest) of
        (Some a, Some b, Some bs) \<Rightarrow> Some (of_nat (a * 16 + b) # bs)
      | _ \<Rightarrow> None)"

fun arrayify :: "bytes_like \<Rightarrow> js_error + bytes" where
  "arrayify (ByteArray bs) = Inr bs"
| "arrayify (HexString s) =
     (if take 2 s = ''0x'' then
        (case bytes_of_hex (drop 2 s) of None \<Rightarrow> Inl InvalidArgument | Some bs \<Rightarrow> Inr bs)
      else Inl InvalidArgument)"

text \<open>
  \<open>hexlify\<close> (library code) on a byte array: \<open>0x\<close> and two lowercase hex digits for each
  byte.
\<close>

definition hex_digit :: "nat \<Rightarrow> char" where
  "hex_digit k = ''0123456789abcdef'' ! k"

definition lowercase_hex :: "bytes \<Rightarrow> string" where
  "lowercase_hex bs =
     concat (map (\<lambda>b. [hex_digit (unat b div 16), hex_digit (unat b mod 16)]) bs)"

definition hexlify :: "bytes \<Rightarrow> string" where
  "hexlify bs = ''0x'' @ lowercase_hex bs"

text \<open>
  \<open>guessAbiEncodedData\<close>. The decoder gets \<open>arrayify(bytes)\<close> as its data and
  \<open>bytes.length\<close> as the end of the static region. \<open>defaultAbiCoder.decode(params, bytes)\<close>
  decodes the same bytes again; it cannot throw, since the decoder has tested \<open>params\<close> on
  them (\<open>decodeWellFormedTuple_tested\<close> below).
\<close>

definition guessAbiEncodedData :: "codec \<Rightarrow> bytes_like \<Rightarrow> js_error + ptype list option" where
  "guessAbiEncodedData c bytes =
     (case arrayify bytes of
        Inl e \<Rightarrow> Inl e
      | Inr data \<Rightarrow>
          (case decodeWellFormedTuple c data 0 [] (js_length bytes) None None of
             None \<Rightarrow> Inr None
           | Some params \<Rightarrow>
               (case abi_decode c params data of
                  None \<Rightarrow> Inl DecodeError
                | Some vals \<Rightarrow>
                    (case prettyTypes c params (Some (VList vals)) of
                       Inl e \<Rightarrow> Inl e
                     | Inr pretty \<Rightarrow> Inr (Some pretty)))))"

text \<open>
  A \<open>FunctionFragment\<close> is what \<open>FunctionFragment.from\<close> (library code) parses from the text
  \<open>name(T1,...,Tn)\<close>: the name and the descriptors of the inputs.
\<close>

record FunctionFragment =
  name :: string
  inputs :: "ptype list"

definition fragment_text :: "string \<Rightarrow> ptype list \<Rightarrow> string" where
  "fragment_text nm params = nm @ ''('' @ formatParams params @ '')''"

definition FunctionFragment_from :: "string \<Rightarrow> ptype list \<Rightarrow> FunctionFragment" where
  "FunctionFragment_from nm params = \<lparr>name = nm, inputs = params\<rparr>"

text \<open>
  \<open>guessFragment\<close>. \<open>FunctionFragment.from\<close> is given the text
  \<open>fragment_text (''guessed_'' @ selector) params\<close>; the fragment it parses has that name and
  those inputs.
\<close>

definition guessFragment :: "codec \<Rightarrow> bytes_like \<Rightarrow> js_error + FunctionFragment option" where
  "guessFragment c calldata =
     (case arrayify calldata of
        Inl e \<Rightarrow> Inl e
      | Inr bytes \<Rightarrow>
          if length bytes = 0 then Inr None
          else
            (let tupleData = drop 4 bytes in
             case guessAbiEncodedData c (ByteArray tupleData) of
               Inl e \<Rightarrow> Inl e
             | Inr None \<Rightarrow> Inr None
             | Inr (Some params) \<Rightarrow>
                 (let selector = drop 2 (hexlify (slice_arr bytes 0 4)) in
                  Inr (Some (FunctionFragment_from (''guessed_'' @ selector) params)))))"

section \<open>A codec to run the program on\<close>

text \<open>
  An instance of the codec for the concrete runs below: it decodes a list of one-word
  static types from a buffer that holds at least one word for each, and rejects every
  other list. Every byte string counts as valid UTF-8.
\<close>

fun is_word_type :: "ptype \<Rightarrow> bool" where
  "is_word_type (Elementary nm) = (nm \<noteq> ''bytes'' \<and> nm \<noteq> ''string'')"
| "is_word_type (ArrayT t) = False"
| "is_word_type (Tuple ts) = False"

definition word_codec :: codec where
  "word_codec =
     \<lparr>abi_decode = (\<lambda>params data.
        if list_all is_word_type params \<and> 32 * length params \<le> length data
        then Some (map (\<lambda>i. VHex (slice_arr data (32 * i) (32 * i + 32))) [0..<length params])
        else None),
      utf8_valid = (\<lambda>bs. True)\<rparr>"

text \<open>
  A second instance, which accepts every list of types on every buffer: with it the
  decoder returns the first layout that its own checks allow.
\<close>

definition accept_all :: codec where
  "accept_all = \<lparr>abi_decode = (\<lambda>params data. Some []), utf8_valid = (\<lambda>bs. True)\<rparr>"

section \<open>What a returned list has been tested on\<close>

text \<open>
  Every list that a frame of the decoder returns has passed \<open>testParams\<close> on the data of
  that frame. The list is the one before refinement: \<open>guessAbiEncodedData\<close> returns the
  refinement of a list on which the codec has succeeded, and does not run the codec on
  the refined list.
\<close>

lemma decodeWellFormedTuple_tested:
  assumes "decodeWellFormedTuple c data paramIdx collectedParams eos expectedLength isd = Some T"
  shows "abi_decode c T data \<noteq> None"
  using assms
  apply (subst (asm) decodeWellFormedTuple.simps)
  apply (simp only: Let_def split: if_splits option.splits)
  apply (auto dest!: tested_SomeD)
  done

lemma guessAbiEncodedData_SomeD:
  assumes "guessAbiEncodedData c bytes = Inr (Some T)"
  shows "\<exists>data params vals. arrayify bytes = Inr data \<and>
           decodeWellFormedTuple c data 0 [] (js_length bytes) None None = Some params \<and>
           abi_decode c params data = Some vals \<and>
           prettyTypes c params (Some (VList vals)) = Inr T"
  using assms
  by (auto simp: guessAbiEncodedData_def split: sum.splits option.splits)

section \<open>The empty input\<close>

lemma prettyTypes_Nil: "prettyTypes c [] vals = Inr []"
  by (subst prettyTypes.simps) simp

lemma decode_empty:
  "decodeWellFormedTuple c [] 0 [] 0 None None =
     (if abi_decode c [] [] \<noteq> None then Some [] else None)"
  by (subst decodeWellFormedTuple.simps) (simp add: tested_def testParams_def)

text \<open>
  Claim C9. On the empty byte array \<open>guessAbiEncodedData\<close> returns the empty list of
  types, not \<open>null\<close>, the codec accepting the empty list of types on the empty buffer (as
  the ABI codec does).
\<close>

theorem empty_input:
  assumes "abi_decode c [] [] \<noteq> None"
  shows "guessAbiEncodedData c (ByteArray []) = Inr (Some [])"
  using assms by (auto simp: guessAbiEncodedData_def decode_empty prettyTypes_Nil)

section \<open>Value-driven refinement of a word\<close>

lemma sequence_Inr_nth:
  assumes "sequence (map f xs) = Inr ts"
  shows "length ts = length xs \<and> (\<forall>i<length xs. f (xs ! i) = Inr (ts ! i))"
  using assms
proof (induction xs arbitrary: ts)
  case Nil
  then show ?case by simp
next
  case (Cons x xs)
  from Cons.prems obtain y ys where fx: "f x = Inr y"
    and rest: "sequence (map f xs) = Inr ys" and ts: "ts = y # ys"
    by (cases "f x"; cases "sequence (map f xs)") auto
  from Cons.IH [OF rest] have len: "length ys = length xs"
    and nth: "\<forall>i<length xs. f (xs ! i) = Inr (ys ! i)"
    by simp_all
  show ?case
  proof (intro conjI allI impI)
    show "length ts = length (x # xs)"
      using ts len by simp
  next
    fix i
    assume "i < length (x # xs)"
    then show "f ((x # xs) ! i) = Inr (ts ! i)"
      using fx nth ts by (cases i) simp_all
  qed
qed

lemma sequence_Inl_nth:
  assumes "sequence (map f xs) = Inl e"
  shows "\<exists>i<length xs. f (xs ! i) = Inl e"
  using assms
proof (induction xs)
  case Nil
  then show ?case by simp
next
  case (Cons x xs)
  show ?case
  proof (cases "f x")
    case (Inl e')
    with Cons.prems have "f ((x # xs) ! 0) = Inl e"
      by simp
    then show ?thesis by blast
  next
    case (Inr y)
    with Cons.prems have "sequence (map f xs) = Inl e"
      by (cases "sequence (map f xs)") auto
    from Cons.IH [OF this] obtain i where "i < length xs" and "f (xs ! i) = Inl e"
      by blast
    then have "Suc i < length (x # xs) \<and> f ((x # xs) ! Suc i) = Inl e"
      by simp
    then show ?thesis by blast
  qed
qed

text \<open>
  The values that one slot of \<open>prettyTypes\<close> sees: \<open>vals[idx]\<close> alone in an array, or the
  empty array when \<open>vals[idx]\<close> is \<open>undefined\<close>. \<open>prettyTypes_slots\<close>: the callback reads
  \<open>params[idx]\<close> and \<open>vals[idx]\<close> only, so a run on a list is the run on each slot by itself,
  from left to right.
\<close>

definition slot_vals :: "aval list \<Rightarrow> nat \<Rightarrow> aval list" where
  "slot_vals vals idx = (if idx < length vals then [vals ! idx] else [])"

lemma upt_single: "[0..<length [p]] = [0]"
  by simp

lemma unwrap_single:
  "(case sequence [b] of Inl e \<Rightarrow> Inl e | Inr ts \<Rightarrow> Inr (ts ! 0)) = b"
  by (cases b) simp_all

lemma js_index_slot:
  "js_index (Some (VList (slot_vals vals idx))) 0 = js_index (Some (VList vals)) idx"
  by (simp add: slot_vals_def)

lemma prettyTypes_slots:
  "prettyTypes c params (Some (VList vals)) =
     sequence (map (\<lambda>idx.
         case prettyTypes c [params ! idx] (Some (VList (slot_vals vals idx))) of
           Inl e \<Rightarrow> Inl e
         | Inr ts \<Rightarrow> Inr (ts ! 0))
       [0..<length params])"
proof (subst prettyTypes.simps [of c params "Some (VList vals)"],
    rule arg_cong [where f = sequence], rule map_cong [OF refl], goal_cases)
  case (1 x)
  show ?case
    apply (subst prettyTypes.simps [of c "[params ! x]" "Some (VList (slot_vals vals x))"])
    apply (simp only: upt_single list.map unwrap_single nth_Cons_0 js_index_slot)
    done
qed

text \<open>
  Claim C6. A \<open>bytes32\<close> slot (at any index \<open>idx\<close> of the type list) whose value is the
  word \<open>w\<close> is refined to \<open>address\<close> when the number of leading zero bytes of \<open>w\<close> is
  between 12 and 17, else to \<open>uint256\<close> when that number exceeds 16, else to
  \<open>bytes(32 - tz)\<close> when the number \<open>tz\<close> of trailing zero bytes is positive, else it
  stays \<open>bytes32\<close>: that is the type \<open>T\<close> of the slot by itself and the type at \<open>idx\<close> of every
  list that \<open>prettyTypes\<close> returns; when \<open>prettyTypes\<close> throws, another slot has thrown; and
  \<open>T\<close> is \<open>address\<close> exactly in the first case.
\<close>

theorem bytes32_refinement:
  assumes "idx < length params" and "params ! idx = Elementary ''bytes32''"
    and "idx < length vals" and "vals ! idx = VHex w"
  shows "\<exists>T. T = (if 12 \<le> countLeadingZeros w \<and> countLeadingZeros w \<le> 17
                  then Elementary ''address''
                else if 16 < countLeadingZeros w then Elementary ''uint256''
                else if 0 < countTrailingZeros w
                  then Elementary (''bytes'' @ string_of_int (32 - int (countTrailingZeros w)))
                else Elementary ''bytes32'') \<and>
           prettyTypes c [params ! idx] (Some (VList (slot_vals vals idx))) = Inr [T] \<and>
           (\<forall>ts. prettyTypes c params (Some (VList vals)) = Inr ts \<longrightarrow>
                 length ts = length params \<and> ts ! idx = T) \<and>
           (\<forall>e. prettyTypes c params (Some (VList vals)) = Inl e \<longrightarrow>
                (\<exists>j<length params. j \<noteq> idx \<and>
                   prettyTypes c [params ! j] (Some (VList (slot_vals vals j))) = Inl e)) \<and>
           (T = Elementary ''address'' \<longleftrightarrow>
              12 \<le> countLeadingZeros w \<and> countLeadingZeros w \<le> 17)"
proof -
  define T where "T = (if 12 \<le> countLeadingZeros w \<and> countLeadingZeros w \<le> 17
                  then Elementary ''address''
                else if 16 < countLeadingZeros w then Elementary ''uint256''
                else if 0 < countTrailingZeros w
                  then Elementary (''bytes'' @ string_of_int (32 - int (countTrailingZeros w)))
                else Elementary ''bytes32'')"
  have slot: "prettyTypes c [params ! idx] (Some (VList (slot_vals vals idx))) = Inr [T]"
    unfolding assms(2)
    using assms(3,4)
    by (subst prettyTypes.simps) (simp add: Let_def slot_vals_def T_def)
  have list: "length ts = length params \<and> ts ! idx = T"
    if "prettyTypes c params (Some (VList vals)) = Inr ts" for ts
  proof -
    from that have seq: "sequence (map (\<lambda>idx.
         case prettyTypes c [params ! idx] (Some (VList (slot_vals vals idx))) of
           Inl e \<Rightarrow> Inl e
         | Inr ts \<Rightarrow> Inr (ts ! 0))
       [0..<length params]) = Inr ts"
      by (simp only: prettyTypes_slots [symmetric])
    from sequence_Inr_nth [OF seq] have len: "length ts = length params"
      and nth: "\<forall>i<length params.
          (case prettyTypes c [params ! i] (Some (VList (slot_vals vals i))) of
             Inl e \<Rightarrow> Inl e
           | Inr ts \<Rightarrow> Inr (ts ! 0)) = Inr (ts ! i)"
      by simp_all
    from nth assms(1) have "(case prettyTypes c [params ! idx] (Some (VList (slot_vals vals idx))) of
             Inl e \<Rightarrow> Inl e
           | Inr ts \<Rightarrow> Inr (ts ! 0)) = Inr (ts ! idx)"
      by blast
    then have "ts ! idx = T"
      unfolding slot by simp
    with len show ?thesis
      by simp
  qed
  have thrown: "\<exists>j<length params. j \<noteq> idx \<and>
      prettyTypes c [params ! j] (Some (VList (slot_vals vals j))) = Inl e"
    if "prettyTypes c params (Some (VList vals)) = Inl e" for e
  proof -
    from that have seq: "sequence (map (\<lambda>idx.
         case prettyTypes c [params ! idx] (Some (VList (slot_vals vals idx))) of
           Inl e \<Rightarrow> Inl e
         | Inr ts \<Rightarrow> Inr (ts ! 0))
       [0..<length params]) = Inl e"
      by (simp only: prettyTypes_slots [symmetric])
    from sequence_Inl_nth [OF seq] obtain j where j: "j < length params"
      and thr: "(case prettyTypes c [params ! j] (Some (VList (slot_vals vals j))) of
             Inl e \<Rightarrow> Inl e
           | Inr ts \<Rightarrow> Inr (ts ! 0)) = Inl e"
      by auto
    from thr have "prettyTypes c [params ! j] (Some (VList (slot_vals vals j))) = Inl e"
      by (cases "prettyTypes c [params ! j] (Some (VList (slot_vals vals j)))") simp_all
    moreover from this slot have "j \<noteq> idx"
      by auto
    ultimately show ?thesis
      using j by blast
  qed
  have addr: "T = Elementary ''address'' \<longleftrightarrow>
      12 \<le> countLeadingZeros w \<and> countLeadingZeros w \<le> 17"
    by (simp add: T_def)
  from T_def slot list thrown addr show ?thesis
    by blast
qed

section \<open>The selector entry point\<close>

lemma selector_hex: "drop 2 (hexlify (slice_arr bytes 0 4)) = lowercase_hex (take 4 bytes)"
  by (simp add: hexlify_def slice_arr_def)

lemma hex_digit_range: "k < 16 \<Longrightarrow> hex_digit k \<in> set ''0123456789abcdef''"
  unfolding hex_digit_def by (rule nth_mem) simp

lemma lowercase_hex_chars:
  assumes "ch \<in> set (lowercase_hex bs)"
  shows "ch \<in> set ''0123456789abcdef''"
proof -
  from assms obtain b :: byte where
    "ch = hex_digit (unat b div 16) \<or> ch = hex_digit (unat b mod 16)"
    unfolding lowercase_hex_def by auto
  moreover have "unat b div 16 < 16"
  proof -
    have "unat b < 256"
      using unsigned_less [of b] by simp
    then show ?thesis by arith
  qed
  moreover have "unat b mod 16 < 16"
    by simp
  ultimately show ?thesis
    using hex_digit_range by metis
qed

text \<open>
  Claim C8. For calldata whose bytes are \<open>cd\<close>: \<open>guessFragment\<close> returns \<open>null\<close> on the
  empty calldata; on any other it returns \<open>null\<close> exactly when \<open>guessAbiEncodedData\<close> does
  on \<open>cd[4..]\<close>, and when that returns a list it returns the fragment named \<open>guessed_\<close>
  followed by the lowercase hex of \<open>cd[0..4]\<close> whose inputs are that list. An exception of
  \<open>guessAbiEncodedData\<close> passes through.
\<close>

theorem selector_preservation:
  assumes "arrayify calldata = Inr cd"
  shows "if cd = [] then guessFragment c calldata = Inr None
         else
           (guessFragment c calldata = Inr None \<longleftrightarrow>
              guessAbiEncodedData c (ByteArray (drop 4 cd)) = Inr None) \<and>
           (\<forall>T. guessAbiEncodedData c (ByteArray (drop 4 cd)) = Inr (Some T) \<longrightarrow>
              guessFragment c calldata =
                Inr (Some \<lparr>name = ''guessed_'' @ lowercase_hex (take 4 cd), inputs = T\<rparr>)) \<and>
           (\<forall>e. guessAbiEncodedData c (ByteArray (drop 4 cd)) = Inl e \<longrightarrow>
              guessFragment c calldata = Inl e)"
  using assms
  by (auto simp: guessFragment_def Let_def selector_hex FunctionFragment_from_def
      split: sum.splits option.splits)

text \<open>
  Claim C10. On calldata of one to three bytes \<open>guessFragment\<close> returns the fragment
  named \<open>guessed_\<close> followed by the lowercase hex of all the bytes, with no inputs, the
  codec accepting the empty list of types on the empty buffer.
\<close>

theorem short_calldata:
  assumes "abi_decode c [] [] \<noteq> None" and "cd \<noteq> []" and "length cd < 4"
  shows "guessFragment c (ByteArray cd) =
           Inr (Some \<lparr>name = ''guessed_'' @ lowercase_hex cd, inputs = []\<rparr>)"
proof -
  have "guessAbiEncodedData c (ByteArray (drop 4 cd)) = Inr (Some [])"
    using assms(1,3) by (auto simp: guessAbiEncodedData_def decode_empty prettyTypes_Nil)
  then show ?thesis
    using assms(2,3)
    by (simp add: guessFragment_def Let_def selector_hex FunctionFragment_from_def)
qed

section \<open>Concrete runs\<close>

text \<open>
  Inputs of the scenarios: one word holding 42 (as bytes and as a hex string), the string
  \<open>hello\<close> behind an offset and a length, the array of the two strings \<open>a\<close> and \<open>bb\<close>
  behind an offset and a length (and its payload, the bytes after the length), two words,
  a word with twelve leading zero bytes, and a selector followed by the word holding 42.
\<close>

definition single_uint :: bytes where
  "single_uint = replicate 31 0 @ [0x2a]"

definition single_uint_hex :: string where
  "single_uint_hex = ''0x000000000000000000000000000000000000000000000000000000000000002a''"

definition hello_data :: bytes where
  "hello_data = replicate 31 0 @ [0x20] @ replicate 31 0 @ [5] @
     [0x68, 0x65, 0x6c, 0x6c, 0x6f] @ replicate 27 0"

definition string_array_data :: bytes where
  "string_array_data =
     replicate 31 0 @ [0x20] @ replicate 31 0 @ [2] @
     replicate 31 0 @ [0x40] @ replicate 31 0 @ [0x80] @
     replicate 31 0 @ [1] @ [0x61] @ replicate 31 0 @
     replicate 31 0 @ [2] @ [0x62, 0x62] @ replicate 30 0"

definition string_array_payload :: bytes where
  "string_array_payload = drop 64 string_array_data"

definition two_words :: bytes where
  "two_words = replicate 31 0 @ [1] @ replicate 31 0 @ [7]"

definition address_word :: bytes where
  "address_word = replicate 12 0 @ replicate 20 0x11"

definition selector_calldata :: bytes where
  "selector_calldata = [0xde, 0xad, 0xbe, 0xef] @ replicate 31 0 @ [0x2a]"

lemma bytes_of_hex_length: "bytes_of_hex s = Some bs \<Longrightarrow> length s = 2 * length bs"
  by (induction s arbitrary: bs rule: bytes_of_hex.induct)
    (auto split: option.splits)

lemma hex_string_length:
  assumes "arrayify (HexString s) = Inr data"
  shows "js_length (HexString s) = 2 * length data + 2"
proof -
  from assms have pre: "take 2 s = ''0x''" and hex: "bytes_of_hex (drop 2 s) = Some data"
    by (auto split: if_splits option.splits)
  from pre have "2 \<le> length s"
    by (cases s; cases "tl s") auto
  with bytes_of_hex_length [OF hex] show ?thesis
    by simp
qed

text \<open>
  Claim C2. For an array of bytes the end of the static region that \<open>guessAbiEncodedData\<close>
  passes to the decoder is the length of the data. For a hex string it is the number of
  characters of the string (\<open>hex_string_length\<close>: twice the number of bytes plus two), not
  the number of bytes: on the word holding 42 the decoder is started with 66 on 32 bytes of
  data, walks three slots and finds nothing, where the same bytes given as an array yield
  \<open>uint256\<close>.
\<close>

theorem hex_string_static_bound:
  "arrayify (HexString single_uint_hex) = Inr single_uint \<and>
   length single_uint = 32 \<and> js_length (HexString single_uint_hex) = 66 \<and>
   guessAbiEncodedData word_codec (ByteArray single_uint) = Inr (Some [Elementary ''uint256'']) \<and>
   guessAbiEncodedData word_codec (HexString single_uint_hex) = Inr None"
  by code_simp

text \<open>The offset word of the string scenario is an offset.\<close>

theorem tryParseOffset_iff_witness: "tryParseOffset hello_data 0 = Some 32"
  by (rule tryParseOffset_iff [THEN iffD2]) code_simp

text \<open>The payload of the string scenario, declared length 5 and 27 trailing zero bytes in one word, is a byte string.\<close>

theorem bytes_classification_witness:
  "maybeResolveDynamicParam word_codec hello_data
     [Placeholder (DynamicPlaceholder 32 (Some 5))] 0 = Some (Elementary ''bytes'')"
proof -
  have h1: "drop 0 [Placeholder (DynamicPlaceholder 32 (Some 5))]
      = Placeholder (DynamicPlaceholder 32 (Some 5)) # []"
    by simp
  have h2: "length_of (DynamicPlaceholder 32 (Some 5)) = Some 5"
    by simp
  have h3: "(5 :: nat) \<noteq> 0"
    by simp
  have rhs: "5 = length (dynamicData hello_data (DynamicPlaceholder 32 (Some 5)) []) \<or>
      (length (dynamicData hello_data (DynamicPlaceholder 32 (Some 5)) []) mod 32 = 0 \<and>
       5 = length (dynamicData hello_data (DynamicPlaceholder 32 (Some 5)) []) -
           countTrailingZeros (dynamicData hello_data (DynamicPlaceholder 32 (Some 5)) []))"
    by code_simp
  show ?thesis
    using bytes_classification [OF h1 h2 h3, of word_codec hello_data] rhs by (rule iffD2)
qed

lemma string_array_dynamicData:
  "dynamicData string_array_data (DynamicPlaceholder 32 (Some 2)) [] = string_array_payload"
  by (simp add: dynamicData_def slice_arr_def string_array_payload_def)

lemma string_array_length: "length string_array_payload = 192"
  by (simp add: string_array_payload_def string_array_data_def)

lemma string_array_with_length:
  "decodeWellFormedTuple accept_all string_array_payload 0 [] 192 (Some 2) (Some True)
     = Some [Elementary ''bytes'', Elementary ''bytes'']"
  by code_simp

lemma string_array_without_length:
  "decodeWellFormedTuple accept_all string_array_payload 0 [] 192 (Some 2) (Some False)
     = Some [Tuple [Elementary ''bytes32'', Elementary ''bytes32''],
             Tuple [Elementary ''bytes32'', Elementary ''bytes32'']]"
  by code_simp

lemma string_array_static:
  "staticParseParams accept_all string_array_payload 2
     = Some [Tuple [Tuple [Elementary ''bytes32''], Elementary ''bytes32''],
             Tuple [Elementary ''bytes32'', Elementary ''bytes32'', Elementary ''bytes32'']]"
  by code_simp

lemma string_array_not_bytes: "\<not> is_bytestring 2 string_array_payload"
  by code_simp

lemma string_array_best:
  "bestResult
     [[Elementary ''bytes'', Elementary ''bytes''],
      [Tuple [Elementary ''bytes32'', Elementary ''bytes32''],
       Tuple [Elementary ''bytes32'', Elementary ''bytes32'']],
      [Tuple [Tuple [Elementary ''bytes32''], Elementary ''bytes32''],
       Tuple [Elementary ''bytes32'', Elementary ''bytes32'', Elementary ''bytes32'']]]
   = Some (ArrayT (Elementary ''bytes''))"
  by code_simp

lemma string_array_filter:
  "filter areParamsConsistent
     [[Elementary ''bytes'', Elementary ''bytes''],
      [Tuple [Elementary ''bytes32'', Elementary ''bytes32''],
       Tuple [Elementary ''bytes32'', Elementary ''bytes32'']],
      [Tuple [Tuple [Elementary ''bytes32''], Elementary ''bytes32''],
       Tuple [Elementary ''bytes32'', Elementary ''bytes32'', Elementary ''bytes32'']]]
   = [[Elementary ''bytes'', Elementary ''bytes''],
      [Tuple [Elementary ''bytes32'', Elementary ''bytes32''],
       Tuple [Elementary ''bytes32'', Elementary ''bytes32'']]]"
  by code_simp

lemma string_array_allResults:
  "allResults accept_all string_array_payload 2
     [Tuple [Tuple [Elementary ''bytes32''], Elementary ''bytes32''],
      Tuple [Elementary ''bytes32'', Elementary ''bytes32'', Elementary ''bytes32'']]
     = [[Elementary ''bytes'', Elementary ''bytes''],
        [Tuple [Elementary ''bytes32'', Elementary ''bytes32''],
         Tuple [Elementary ''bytes32'', Elementary ''bytes32'']],
        [Tuple [Tuple [Elementary ''bytes32''], Elementary ''bytes32''],
         Tuple [Elementary ''bytes32'', Elementary ''bytes32'', Elementary ''bytes32'']]]"
  by (simp add: allResults_def string_array_length string_array_with_length
      string_array_without_length pushed_def)

text \<open>
  The array of two strings: the three candidates are pushed (two \<open>bytes\<close>; two tuples of
  two words; a static parse whose two elements differ), the static one is filtered out, and
  \<open>bytes\<close>, the shorter of the remaining two, is chosen.
\<close>

theorem array_ranking_witness:
  "allResults accept_all string_array_payload 2
     [Tuple [Tuple [Elementary ''bytes32''], Elementary ''bytes32''],
      Tuple [Elementary ''bytes32'', Elementary ''bytes32'', Elementary ''bytes32'']]
     = [[Elementary ''bytes'', Elementary ''bytes''],
        [Tuple [Elementary ''bytes32'', Elementary ''bytes32''],
         Tuple [Elementary ''bytes32'', Elementary ''bytes32'']],
        [Tuple [Tuple [Elementary ''bytes32''], Elementary ''bytes32''],
         Tuple [Elementary ''bytes32'', Elementary ''bytes32'', Elementary ''bytes32'']]] \<and>
   filter areParamsConsistent
     [[Elementary ''bytes'', Elementary ''bytes''],
      [Tuple [Elementary ''bytes32'', Elementary ''bytes32''],
       Tuple [Elementary ''bytes32'', Elementary ''bytes32'']],
      [Tuple [Tuple [Elementary ''bytes32''], Elementary ''bytes32''],
       Tuple [Elementary ''bytes32'', Elementary ''bytes32'', Elementary ''bytes32'']]]
   = [[Elementary ''bytes'', Elementary ''bytes''],
      [Tuple [Elementary ''bytes32'', Elementary ''bytes32''],
       Tuple [Elementary ''bytes32'', Elementary ''bytes32'']]] \<and>
   maybeResolveDynamicParam accept_all string_array_data
      [Placeholder (DynamicPlaceholder 32 (Some 2))] 0 = Some (ArrayT (Elementary ''bytes'')) \<and>
   (\<exists>staticParse pre r post.
      staticParseParams accept_all
        (dynamicData string_array_data (DynamicPlaceholder 32 (Some 2)) []) 2 = Some staticParse \<and>
      filter areParamsConsistent
        (allResults accept_all (dynamicData string_array_data (DynamicPlaceholder 32 (Some 2)) []) 2
           staticParse) = pre @ r # post \<and>
      Elementary ''bytes'' = r ! 0 \<and>
      (\<forall>p\<in>set r. format p = format (Elementary ''bytes'')) \<and>
      (\<forall>q\<in>set pre. length (format (Elementary ''bytes'')) < length (format (q ! 0))) \<and>
      (\<forall>q\<in>set post. length (format (Elementary ''bytes'')) \<le> length (format (q ! 0))))"
proof -
  have h1: "drop 0 [Placeholder (DynamicPlaceholder 32 (Some 2))]
      = Placeholder (DynamicPlaceholder 32 (Some 2)) # []"
    by simp
  have h2: "length_of (DynamicPlaceholder 32 (Some 2)) = Some 2"
    by simp
  have h3: "(2 :: nat) \<noteq> 0"
    by simp
  have h4: "maybeResolveDynamicParam accept_all string_array_data
      [Placeholder (DynamicPlaceholder 32 (Some 2))] 0 = Some (ArrayT (Elementary ''bytes''))"
    by (simp add: maybeResolve_placeholder [OF h1] string_array_dynamicData
        string_array_not_bytes string_array_length string_array_static
        string_array_allResults string_array_best)
  show ?thesis
    using string_array_allResults string_array_filter h4 array_ranking [OF h1 h2 h3 h4]
    by (intro conjI)
qed

text \<open>
  The ranking by itself: an inconsistent candidate is dropped, and of the two shortest
  element types the one pushed first wins.
\<close>

lemma bestResult_example:
  "bestResult
     [[Elementary ''bytes32'', Elementary ''uint256''], [Elementary ''uint256''],
      [Elementary ''bytes''], [Elementary ''bytes32''], [Elementary ''uint8'']]
   = Some (ArrayT (Elementary ''bytes''))"
  by code_simp

text \<open>A frame on two words with \<open>expectedLength = 2\<close> returns two types.\<close>

theorem expected_length_consistency_witness:
  "decodeWellFormedTuple word_codec two_words 0 [] 64 (Some 2) None
     = Some [Elementary ''bytes32'', Elementary ''bytes32''] \<and>
   (decodeWellFormedTuple word_codec two_words 0 [] 64 (Some 2) None = None \<or>
    (\<exists>T. decodeWellFormedTuple word_codec two_words 0 [] 64 (Some 2) None = Some T \<and>
         length T = 2))"
proof
  show "decodeWellFormedTuple word_codec two_words 0 [] 64 (Some 2) None
     = Some [Elementary ''bytes32'', Elementary ''bytes32'']"
    by code_simp
  show "decodeWellFormedTuple word_codec two_words 0 [] 64 (Some 2) None = None \<or>
    (\<exists>T. decodeWellFormedTuple word_codec two_words 0 [] 64 (Some 2) None = Some T \<and>
         length T = 2)"
    by (rule expected_length_consistency)
qed

text \<open>
  Two \<open>bytes32\<close> slots, the word holding 42 and a word with twelve leading zero bytes: the
  second slot is refined to \<open>address\<close>.
\<close>

theorem bytes32_refinement_witness:
  "prettyTypes word_codec [Elementary ''bytes32'', Elementary ''bytes32'']
     (Some (VList [VHex single_uint, VHex address_word]))
     = Inr [Elementary ''uint256'', Elementary ''address''] \<and>
   [Elementary ''uint256'', Elementary ''address''] ! 1 = Elementary ''address'' \<and>
   12 \<le> countLeadingZeros address_word \<and> countLeadingZeros address_word \<le> 17"
proof -
  let ?params = "[Elementary ''bytes32'', Elementary ''bytes32'']"
  let ?vals = "[VHex single_uint, VHex address_word]"
  have h1: "1 < length ?params" by simp
  have h2: "?params ! 1 = Elementary ''bytes32''" by simp
  have h3: "1 < length ?vals" by simp
  have h4: "?vals ! 1 = VHex address_word" by simp
  have run: "prettyTypes word_codec ?params (Some (VList ?vals))
      = Inr [Elementary ''uint256'', Elementary ''address'']"
    by code_simp
  from bytes32_refinement [OF h1 h2 h3 h4, of word_codec] obtain T where
    list: "\<forall>ts. prettyTypes word_codec ?params (Some (VList ?vals)) = Inr ts \<longrightarrow>
             length ts = length ?params \<and> ts ! 1 = T"
    and addr: "T = Elementary ''address'' \<longleftrightarrow>
      12 \<le> countLeadingZeros address_word \<and> countLeadingZeros address_word \<le> 17"
    by blast
  from list run have T: "[Elementary ''uint256'', Elementary ''address''] ! 1 = T"
    by blast
  then have "T = Elementary ''address''"
    by simp
  with addr T show ?thesis
    using run by simp
qed

text \<open>The empty byte array, with the codec above.\<close>

theorem empty_input_witness:
  "guessAbiEncodedData word_codec (ByteArray []) = Inr (Some [])"
proof -
  have "abi_decode word_codec [] [] \<noteq> None"
    by code_simp
  then show ?thesis
    by (rule empty_input)
qed

text \<open>Calldata of two bytes.\<close>

theorem short_calldata_witness:
  "guessFragment word_codec (ByteArray [0xde, 0xad])
     = Inr (Some \<lparr>name = ''guessed_dead'', inputs = []\<rparr>)"
proof -
  have h1: "abi_decode word_codec [] [] \<noteq> None"
    by code_simp
  have h2: "[0xde, 0xad :: byte] \<noteq> []"
    by simp
  have h3: "length [0xde, 0xad :: byte] < 4"
    by simp
  have hex: "lowercase_hex [0xde, 0xad] = ''dead''"
    by code_simp
  show ?thesis
    using short_calldata [OF h1 h2 h3] by (simp only: hex append.simps)
qed

text \<open>A selector followed by the word holding 42.\<close>

theorem selector_preservation_witness:
  "guessFragment word_codec (ByteArray selector_calldata)
     = Inr (Some \<lparr>name = ''guessed_deadbeef'', inputs = [Elementary ''uint256'']\<rparr>)"
proof -
  have a: "arrayify (ByteArray selector_calldata) = Inr selector_calldata"
    by simp
  have ne: "selector_calldata \<noteq> []"
    by (simp add: selector_calldata_def)
  have g: "guessAbiEncodedData word_codec (ByteArray (drop 4 selector_calldata))
      = Inr (Some [Elementary ''uint256''])"
    by code_simp
  have hex: "lowercase_hex (take 4 selector_calldata) = ''deadbeef''"
    by code_simp
  from selector_preservation [OF a, of word_codec] ne g
  have "guessFragment word_codec (ByteArray selector_calldata) =
      Inr (Some \<lparr>name = ''guessed_'' @ lowercase_hex (take 4 selector_calldata),
                 inputs = [Elementary ''uint256'']\<rparr>)"
    by simp
  then show ?thesis
    by (simp only: hex append.simps)
qed

end
